theory Spec2Isabelle
  imports Complex_Main "HOL-Library.Char_ord" "HOL-Library.List_Lexorder" "HOL-Library.AList"
    "HOL-Library.Sublist"
begin

section \<open>Strings, dictionaries and regular expressions as the Python code uses them\<close>

text \<open>
  Python strings are modelled as \<^typ>\<open>string\<close>; a character stands for the code point
  of the same number (0 to 255).  Python floats are modelled as exact rationals.
  A JSON object (a Python \<open>dict\<close>) is an association list in insertion order;
  \<open>d.get(k, default)\<close> is \<open>dict_get\<close>.  A spreadsheet cell is represented by the
  string that \<open>str(value)\<close> yields for it.
\<close>

type_synonym ('k, 'v) dict = "('k \<times> 'v) list"

type_synonym row = "(string, string) dict"

definition dict_get :: "('k, 'v) dict \<Rightarrow> 'k \<Rightarrow> 'v \<Rightarrow> 'v" where
  "dict_get d k dflt = (case map_of d k of None \<Rightarrow> dflt | Some v \<Rightarrow> v)"

definition code :: "char \<Rightarrow> nat" where
  "code c = of_char c"

text \<open>\<open>str.isspace\<close> on the code points below 256.\<close>

definition is_space :: "char \<Rightarrow> bool" where
  "is_space c = ((9 \<le> code c \<and> code c \<le> 13) \<or> (28 \<le> code c \<and> code c \<le> 32)
     \<or> code c = 133 \<or> code c = 160)"

definition is_digit :: "char \<Rightarrow> bool" where
  "is_digit c = (48 \<le> code c \<and> code c \<le> 57)"

definition is_upper_az :: "char \<Rightarrow> bool" where
  "is_upper_az c = (65 \<le> code c \<and> code c \<le> 90)"

definition is_lower_az :: "char \<Rightarrow> bool" where
  "is_lower_az c = (97 \<le> code c \<and> code c \<le> 122)"

text \<open>\<open>s.strip()\<close>: whitespace removed at both ends.\<close>

definition strip :: "string \<Rightarrow> string" where
  "strip s = rev (dropWhile is_space (rev (dropWhile is_space s)))"

text \<open>
  The regular expressions of the source that are only tested for a match are written as
  terms of \<open>rx\<close> and decided by derivatives.  \<open>re_search\<close> is \<open>re.search\<close> (a match
  anywhere); \<open>re_match_to_end\<close> is \<open>re.match\<close> of a pattern of the form \<open>^r$\<close>, where
  \<open>$\<close> also matches before a final newline.
\<close>

datatype rx = Nul | Eps | Cls "char \<Rightarrow> bool" | Seq rx rx | Alt rx rx | Star rx

fun nullable :: "rx \<Rightarrow> bool" where
  "nullable Nul = False"
| "nullable Eps = True"
| "nullable (Cls P) = False"
| "nullable (Seq r s) = (nullable r \<and> nullable s)"
| "nullable (Alt r s) = (nullable r \<or> nullable s)"
| "nullable (Star r) = True"

fun deriv :: "char \<Rightarrow> rx \<Rightarrow> rx" where
  "deriv c Nul = Nul"
| "deriv c Eps = Nul"
| "deriv c (Cls P) = (if P c then Eps else Nul)"
| "deriv c (Seq r s) =
     (if nullable r then Alt (Seq (deriv c r) s) (deriv c s) else Seq (deriv c r) s)"
| "deriv c (Alt r s) = Alt (deriv c r) (deriv c s)"
| "deriv c (Star r) = Seq (deriv c r) (Star r)"

fun rx_matches :: "rx \<Rightarrow> string \<Rightarrow> bool" where
  "rx_matches r [] = nullable r"
| "rx_matches r (c # cs) = rx_matches (deriv c r) cs"

definition rx_any :: rx where
  "rx_any = Star (Cls (\<lambda>c. True))"

definition re_search :: "rx \<Rightarrow> string \<Rightarrow> bool" where
  "re_search r s = rx_matches (Seq rx_any (Seq r rx_any)) s"

definition re_match_to_end :: "rx \<Rightarrow> string \<Rightarrow> bool" where
  "re_match_to_end r s =
     (rx_matches r s \<or> (s \<noteq> [] \<and> last s = CHR 0x0A \<and> rx_matches r (butlast s)))"

definition rx_plus :: "rx \<Rightarrow> rx" where
  "rx_plus r = Seq r (Star r)"

fun rx_times :: "nat \<Rightarrow> rx \<Rightarrow> rx" where
  "rx_times 0 r = Eps"
| "rx_times (Suc n) r = Seq r (rx_times n r)"

definition rx_chr :: "char \<Rightarrow> rx" where
  "rx_chr c = Cls (\<lambda>x. x = c)"

section \<open>Column Fillability Analyzer (\<open>enhanced_trainer.py\<close>)\<close>

text \<open>The values a result dictionary of the analyzer holds.\<close>

datatype pyval = PBool bool | PNum rat | PInt nat | PStr string | PStrList "string list"

text \<open>\<open>v and v not in ['0', '']\<close>\<close>

definition non_empty :: "string \<Rightarrow> bool" where
  "non_empty v = (v \<noteq> [] \<and> v \<notin> set [''0'', ''''])"

text \<open>\<open>[str(row.get(column_key, "")).strip() for row in rows[:200]]\<close>\<close>

definition sample_values :: "row list \<Rightarrow> string \<Rightarrow> string list" where
  "sample_values rows column_key = map (\<lambda>row. strip (dict_get row column_key [])) (take 200 rows)"

text \<open>\<open>[\d.,]\<close>\<close>

definition is_amount_char :: "char \<Rightarrow> bool" where
  "is_amount_char c = (is_digit c \<or> c = CHR ''.'' \<or> c = CHR '','')"

text \<open>\<open>v.replace(' ', '')\<close>\<close>

definition remove_blanks :: "string \<Rightarrow> string" where
  "remove_blanks v = filter (\<lambda>c. c \<noteq> CHR '' '') v"

text \<open>The five \<open>common_patterns\<close>, in the order of the source.\<close>

definition common_patterns :: "rx list" where
  "common_patterns =
     [rx_plus (Cls is_digit),
      rx_plus (Cls is_amount_char),
      Alt (rx_times 2 (Cls is_upper_az))
        (Alt (rx_times 3 (Cls is_upper_az)) (rx_times 4 (Cls is_upper_az))),
      Seq (rx_times 4 (Cls is_digit)) (Seq (rx_chr CHR ''-'')
        (Seq (rx_times 2 (Cls is_digit)) (Seq (rx_chr CHR ''-'') (rx_times 2 (Cls is_digit))))),
      Seq (rx_plus (Cls is_lower_az)) (Seq (rx_chr CHR ''@'')
        (Seq (rx_plus (Cls is_lower_az)) (Seq (rx_chr CHR ''.'') (rx_plus (Cls is_lower_az)))))]"

text \<open>Signals 1 and 2: the empty-to-filled transition, else the partial filling increase.\<close>

definition transition_signal :: "rat \<Rightarrow> rat \<Rightarrow> rat \<times> string list" where
  "transition_signal empty_ratio filled_ratio =
     (if empty_ratio \<le> 1 / 10 \<and> filled_ratio \<ge> 3 / 10 then (8 / 10, [''empty_to_filled''])
      else if empty_ratio < filled_ratio \<and> filled_ratio - empty_ratio \<ge> 2 / 10
        then (6 / 10, [''increased_filling''])
      else (0, []))"

text \<open>Signal 3: more distinct non-empty values in the filled version.\<close>

definition diversity_signal :: "string list \<Rightarrow> string list \<Rightarrow> rat \<times> string list" where
  "diversity_signal empty_values filled_values =
     (if length filled_values > 0 \<and> length empty_values > 0 then
        (let empty_unique = remdups (filter non_empty empty_values);
             filled_unique = remdups (filter non_empty filled_values)
         in if of_nat (length filled_unique) > of_nat (length empty_unique) * (3 / 2 :: rat)
            then (3 / 10, [''value_diversity_increase'']) else (0, []))
      else (0, []))"

text \<open>Signal 4: mostly numeric filled values.\<close>

definition numeric_signal :: "string list \<Rightarrow> rat \<times> string list" where
  "numeric_signal filled_non_empty_values =
     (let numeric_count = length (filter (\<lambda>v. re_match_to_end (rx_plus (Cls is_amount_char))
                                               (remove_blanks v)) filled_non_empty_values);
          numeric_ratio = of_nat numeric_count / of_nat (length filled_non_empty_values)
      in if numeric_ratio > (7 / 10 :: rat) then (2 / 10, [''numeric_pattern'']) else (0, []))"

text \<open>Signal 5: at least two of the common patterns occur among the filled values.\<close>

definition structured_signal :: "string list \<Rightarrow> rat \<times> string list" where
  "structured_signal filled_non_empty_values =
     (let pattern_matches = length (filter
            (\<lambda>pattern. length (filter (re_search pattern) filled_non_empty_values) \<noteq> 0)
            common_patterns)
      in if pattern_matches \<ge> 2 then (1 / 10, [''structured_pattern'']) else (0, []))"

definition analyze_column_filling_patterns :: "row list \<Rightarrow> row list \<Rightarrow> string \<Rightarrow> (string, pyval) dict"
  where
  "analyze_column_filling_patterns empty_rows filled_rows column_key =
     (let empty_values = sample_values empty_rows column_key;
          filled_values = sample_values filled_rows column_key;
          empty_non_empty = length (filter non_empty empty_values);
          filled_non_empty = length (filter non_empty filled_values);
          total_rows = min (length empty_values) (length filled_values)
      in if total_rows = 0
         then [(''fillable'', PBool False), (''confidence'', PNum 0), (''reason'', PStr ''no_data'')]
         else
          (let empty_ratio = (of_nat empty_non_empty / of_nat total_rows :: rat);
               filled_ratio = (of_nat filled_non_empty / of_nat total_rows :: rat);
               s12 = transition_signal empty_ratio filled_ratio;
               s3 = diversity_signal empty_values filled_values;
               filled_non_empty_values = filter non_empty filled_values;
               s4 = (if filled_non_empty_values \<noteq> [] then numeric_signal filled_non_empty_values
                     else (0, []));
               s5 = (if filled_non_empty_values \<noteq> [] then structured_signal filled_non_empty_values
                     else (0, []));
               fillability_score = fst s12 + fst s3 + fst s4 + fst s5;
               reasons = snd s12 @ snd s3 @ snd s4 @ snd s5;
               confidence = min fillability_score 1;
               is_fillable = (confidence \<ge> 3 / 10)
           in [(''fillable'', PBool is_fillable),
               (''confidence'', PNum confidence),
               (''empty_ratio'', PNum empty_ratio),
               (''filled_ratio'', PNum filled_ratio),
               (''empty_count'', PInt empty_non_empty),
               (''filled_count'', PInt filled_non_empty),
               (''total_rows'', PInt total_rows),
               (''reasons'', PStrList reasons),
               (''filled_sample_values'', PStrList (take 10 filled_non_empty_values))]))"

text \<open>The contributions of signals 3 to 5 together, as the analyzer adds them up.\<close>

definition residual_score :: "string list \<Rightarrow> string list \<Rightarrow> rat" where
  "residual_score ev fv = fst (diversity_signal ev fv)
     + fst (if filter non_empty fv \<noteq> [] then numeric_signal (filter non_empty fv) else (0, []))
     + fst (if filter non_empty fv \<noteq> [] then structured_signal (filter non_empty fv) else (0, []))"

text \<open>The scenario of the specification: a column empty before and filled after.\<close>

definition scenario_empty_rows :: "row list" where
  "scenario_empty_rows =
     [[(''rate'', '''')], [(''rate'', '''')], [(''rate'', ''0'')], [(''rate'', '''')]]"

definition scenario_filled_rows :: "row list" where
  "scenario_filled_rows =
     [[(''rate'', ''100'')], [(''rate'', ''250'')], [(''rate'', ''0'')], [(''rate'', ''300'')]]"

section \<open>Pattern Store and merge (\<open>store.py\<close>)\<close>

text \<open>
  The store is the JSON document of the source.  Every key that the code reads with
  \<open>.get(key, default)\<close> or with \<open>[key]\<close> may be absent, so each is an optional field;
  reading an absent key with \<open>[key]\<close> raises \<open>KeyError\<close>.
\<close>

datatype py_error = KeyError string

record verification =
  v_label :: "string option"
  v_confidence :: "rat option"
  v_method :: "string option"

record pattern_data =
  p_label :: "string option"

record learned_sheet =
  header_map :: "(string, string list) dict option"
  columns_to_fill :: "string list option"
  column_positions :: "(string, int) dict option"
  verifications :: "(string, verification) dict option"
  enhanced_patterns :: "(string, pattern_data) dict option"

record pattern_store =
  sheets :: "(string, learned_sheet) dict option"

text \<open>\<open>d.get(key, [])\<close> and \<open>d.get(key, {})\<close> on an optional field.\<close>

definition or_empty :: "'a list option \<Rightarrow> 'a list" where
  "or_empty x = (case x of None \<Rightarrow> [] | Some xs \<Rightarrow> xs)"

text \<open>\<open>sorted(set(xs))\<close>: the distinct elements in ascending order.\<close>

definition sorted_set :: "string list \<Rightarrow> string list" where
  "sorted_set xs = sort (remdups xs)"

text \<open>
  The loop over \<open>payload["header_map"]\<close>: each entry replaces the target's list for its key
  by the sorted union of that list and the incoming variants.
\<close>

fun merge_header_map ::
  "(string, string list) dict \<Rightarrow> (string \<times> string list) list \<Rightarrow> (string, string list) dict"
  where
  "merge_header_map tgt [] = tgt"
| "merge_header_map tgt ((nrm, variants) # rest) =
     merge_header_map (AList.update nrm (sorted_set (dict_get tgt nrm [] @ variants)) tgt) rest"

text \<open>The loops \<open>target[...][key] = value\<close> over column positions and verifications.\<close>

fun overwrite :: "('k, 'v) dict \<Rightarrow> ('k \<times> 'v) list \<Rightarrow> ('k, 'v) dict" where
  "overwrite tgt [] = tgt"
| "overwrite tgt ((k, v) # rest) = overwrite (AList.update k v tgt) rest"

text \<open>
  A loop that indexes \<open>target[name]\<close> once per incoming entry: with no entry the target is
  not touched, with an entry and no such key in the target the first access raises.
\<close>

definition update_field ::
  "string \<Rightarrow> (('k, 'v) dict \<Rightarrow> ('k \<times> 'w) list \<Rightarrow> ('k, 'v) dict) \<Rightarrow> ('k, 'v) dict option
     \<Rightarrow> ('k \<times> 'w) list \<Rightarrow> py_error + ('k, 'v) dict option" where
  "update_field name f tgt entries =
     (if entries = [] then Inr tgt
      else case tgt of None \<Rightarrow> Inl (KeyError name) | Some t \<Rightarrow> Inr (Some (f t entries)))"

text \<open>The body of the loop over the incoming sheets, for one sheet.\<close>

definition merge_sheet :: "learned_sheet \<Rightarrow> learned_sheet \<Rightarrow> py_error + learned_sheet" where
  "merge_sheet target payload =
     (case update_field ''header_map'' merge_header_map (header_map target)
             (or_empty (header_map payload)) of
        Inl e \<Rightarrow> Inl e
      | Inr hm \<Rightarrow>
         (let merged = sorted_set (or_empty (columns_to_fill target)
                                    @ or_empty (columns_to_fill payload))
          in case update_field ''column_positions'' overwrite (column_positions target)
                    (or_empty (column_positions payload)) of
               Inl e \<Rightarrow> Inl e
             | Inr cp \<Rightarrow>
                (case update_field ''verifications'' overwrite (verifications target)
                        (or_empty (verifications payload)) of
                   Inl e \<Rightarrow> Inl e
                 | Inr vf \<Rightarrow>
                    Inr (target\<lparr>header_map := hm, columns_to_fill := Some merged,
                               column_positions := cp, verifications := vf\<rparr>))))"

text \<open>The dictionary that \<open>setdefault\<close> inserts for a sheet the store does not have yet.\<close>

definition default_sheet :: learned_sheet where
  "default_sheet = \<lparr>header_map = Some [], columns_to_fill = Some [], column_positions = Some [],
     verifications = Some [], enhanced_patterns = None\<rparr>"

fun merge_sheets ::
  "(string, learned_sheet) dict \<Rightarrow> (string \<times> learned_sheet) list
     \<Rightarrow> py_error + (string, learned_sheet) dict" where
  "merge_sheets out [] = Inr out"
| "merge_sheets out ((sheet, payload) # rest) =
     (case merge_sheet (dict_get out sheet default_sheet) payload of
        Inl e \<Rightarrow> Inl e
      | Inr target \<Rightarrow> merge_sheets (AList.update sheet target out) rest)"

text \<open>
  \<open>merge_patterns(store, incoming)\<close>.  The result is built on a deep copy, so the two
  arguments are not changed; \<open>out["sheets"]\<close> is read only inside the loop.
\<close>

definition merge_patterns :: "pattern_store \<Rightarrow> pattern_store \<Rightarrow> py_error + pattern_store" where
  "merge_patterns store incoming =
     (if or_empty (sheets incoming) = [] then Inr store
      else case sheets store of
             None \<Rightarrow> Inl (KeyError ''sheets'')
           | Some out \<Rightarrow>
              (case merge_sheets out (or_empty (sheets incoming)) of
                 Inl e \<Rightarrow> Inl e
               | Inr out' \<Rightarrow> Inr (store\<lparr>sheets := Some out'\<rparr>)))"

text \<open>Two merges in a row; an error of the first ends the computation.\<close>

definition merge_twice ::
  "pattern_store \<Rightarrow> pattern_store \<Rightarrow> pattern_store \<Rightarrow> py_error + pattern_store" where
  "merge_twice store a b =
     (case merge_patterns store a of Inl e \<Rightarrow> Inl e | Inr s \<Rightarrow> merge_patterns s b)"

text \<open>
  The set-valued fields of a sheet of the store: its fillable list, and its header map read
  as a dictionary (Python compares dictionaries without regard to order).
\<close>

definition sheet_of :: "pattern_store \<Rightarrow> string \<Rightarrow> learned_sheet option" where
  "sheet_of store name = map_of (or_empty (sheets store)) name"

definition fillable_list :: "pattern_store \<Rightarrow> string \<Rightarrow> string list option option" where
  "fillable_list store name = map_option columns_to_fill (sheet_of store name)"

definition header_variants ::
  "pattern_store \<Rightarrow> string \<Rightarrow> (string \<rightharpoonup> string list) option option" where
  "header_variants store name =
     map_option (\<lambda>sh. map_option map_of (header_map sh)) (sheet_of store name)"

subsection \<open>Views of the store used to reason about merging\<close>

text \<open>All the variants that the entries of an incoming header map bring for one key.\<close>

definition incoming_variants :: "(string \<times> string list) list \<Rightarrow> string \<Rightarrow> string set" where
  "incoming_variants entries k = \<Union> (set ` snd ` {x \<in> set entries. fst x = k})"

text \<open>What merging a list of header-map entries does to the header map read as a dictionary.\<close>

definition hmerge ::
  "(string \<rightharpoonup> string list) \<Rightarrow> (string \<times> string list) list \<Rightarrow> (string \<rightharpoonup> string list)" where
  "hmerge h entries =
     (\<lambda>k. if k \<in> fst ` set entries
          then Some (sorted_list_of_set (set (or_empty (h k)) \<union> incoming_variants entries k))
          else h k)"

type_synonym sheet_view = "string list option \<times> (string \<rightharpoonup> string list) option"

definition sheet_view :: "learned_sheet \<Rightarrow> sheet_view" where
  "sheet_view t = (columns_to_fill t, map_option map_of (header_map t))"

definition vmerge :: "learned_sheet \<Rightarrow> sheet_view \<Rightarrow> sheet_view" where
  "vmerge p v =
     (Some (sorted_list_of_set (set (or_empty (fst v)) \<union> set (or_empty (columns_to_fill p)))),
      map_option (\<lambda>h. hmerge h (or_empty (header_map p))) (snd v))"

definition payloads_for :: "(string \<times> learned_sheet) list \<Rightarrow> string \<Rightarrow> learned_sheet list" where
  "payloads_for entries s = map snd (filter (\<lambda>x. fst x = s) entries)"

text \<open>Which of the three keys that the merge indexes are absent from a sheet.\<close>

definition shape :: "learned_sheet \<Rightarrow> bool \<times> bool \<times> bool" where
  "shape t = (header_map t = None, column_positions t = None, verifications t = None)"

definition fits :: "bool \<times> bool \<times> bool \<Rightarrow> learned_sheet \<Rightarrow> bool" where
  "fits sh p =
     (\<not> (fst sh \<and> or_empty (header_map p) \<noteq> [])
      \<and> \<not> (fst (snd sh) \<and> or_empty (column_positions p) \<noteq> [])
      \<and> \<not> (snd (snd sh) \<and> or_empty (verifications p) \<noteq> []))"

definition shape_at :: "(string, learned_sheet) dict \<Rightarrow> string \<Rightarrow> bool \<times> bool \<times> bool" where
  "shape_at out s = shape (dict_get out s default_sheet)"

definition store_shape :: "pattern_store \<Rightarrow> (string \<Rightarrow> bool \<times> bool \<times> bool) option" where
  "store_shape store = map_option shape_at (sheets store)"

definition accepts :: "(string \<Rightarrow> bool \<times> bool \<times> bool) option \<Rightarrow> pattern_store \<Rightarrow> bool" where
  "accepts sh incoming =
     (or_empty (sheets incoming) = []
      \<or> (case sh of None \<Rightarrow> False
          | Some f \<Rightarrow> list_all (\<lambda>x. fits (f (fst x)) (snd x)) (or_empty (sheets incoming))))"

definition store_view :: "pattern_store \<Rightarrow> string \<Rightarrow> sheet_view" where
  "store_view store s = sheet_view (dict_get (or_empty (sheets store)) s default_sheet)"

subsection \<open>A small store and two incoming pattern objects\<close>

definition example_store :: pattern_store where
  "example_store = \<lparr>sheets = Some
     [(''Rates'', \<lparr>header_map = Some [(''rate'', [''Rate''])], columns_to_fill = Some [''rate''],
         column_positions = Some [(''rate'', 2)], verifications = Some [],
         enhanced_patterns = None\<rparr>)]\<rparr>"

definition example_incoming_a :: pattern_store where
  "example_incoming_a = \<lparr>sheets = Some
     [(''Rates'', \<lparr>header_map = Some [(''rate'', [''RATE'', ''Rate''])],
         columns_to_fill = Some [''rate'', ''fee''],
         column_positions = Some [(''rate'', 3)], verifications = None,
         enhanced_patterns = None\<rparr>)]\<rparr>"

definition example_incoming_b :: pattern_store where
  "example_incoming_b = \<lparr>sheets = Some
     [(''Lanes'', \<lparr>header_map = None, columns_to_fill = Some [''lane''],
         column_positions = None, verifications = None, enhanced_patterns = None\<rparr>),
      (''Rates'', \<lparr>header_map = Some [(''fee'', [''Fee''])], columns_to_fill = Some [''cost''],
         column_positions = Some [(''rate'', 5)], verifications = None,
         enhanced_patterns = None\<rparr>)]\<rparr>"

text \<open>The results of merging them into the store: \<open>a\<close> alone, \<open>a\<close> then \<open>b\<close>, \<open>b\<close> then \<open>a\<close>.\<close>

definition example_merged_a :: pattern_store where
  "example_merged_a = \<lparr>sheets = Some
     [(''Rates'', \<lparr>header_map = Some [(''rate'', [''RATE'', ''Rate''])],
         columns_to_fill = Some [''fee'', ''rate''],
         column_positions = Some [(''rate'', 3)], verifications = Some [],
         enhanced_patterns = None\<rparr>)]\<rparr>"

definition example_merged_a_b :: pattern_store where
  "example_merged_a_b = \<lparr>sheets = Some
     [(''Rates'', \<lparr>header_map = Some [(''rate'', [''RATE'', ''Rate'']), (''fee'', [''Fee''])],
         columns_to_fill = Some [''cost'', ''fee'', ''rate''],
         column_positions = Some [(''rate'', 5)], verifications = Some [],
         enhanced_patterns = None\<rparr>),
      (''Lanes'', \<lparr>header_map = Some [], columns_to_fill = Some [''lane''],
         column_positions = Some [], verifications = Some [], enhanced_patterns = None\<rparr>)]\<rparr>"

definition example_merged_b_a :: pattern_store where
  "example_merged_b_a = \<lparr>sheets = Some
     [(''Rates'', \<lparr>header_map = Some [(''rate'', [''RATE'', ''Rate'']), (''fee'', [''Fee''])],
         columns_to_fill = Some [''cost'', ''fee'', ''rate''],
         column_positions = Some [(''rate'', 3)], verifications = Some [],
         enhanced_patterns = None\<rparr>),
      (''Lanes'', \<lparr>header_map = Some [], columns_to_fill = Some [''lane''],
         column_positions = Some [], verifications = Some [], enhanced_patterns = None\<rparr>)]\<rparr>"

section \<open>Header Extractor/Cleaner (\<open>enhanced_header_detector.py\<close>)\<close>

text \<open>\<open>str.lower\<close> on the code points below 256: A to Z and the accented capitals.\<close>

definition is_upper :: "char \<Rightarrow> bool" where
  "is_upper c = ((65 \<le> code c \<and> code c \<le> 90)
     \<or> (192 \<le> code c \<and> code c \<le> 222 \<and> code c \<noteq> 215))"

definition lower_char :: "char \<Rightarrow> char" where
  "lower_char c = (if is_upper c then char_of (code c + 32) else c)"

definition lower :: "string \<Rightarrow> string" where
  "lower s = map lower_char s"

definition newline :: char where
  "newline = CHR 0x0A"

text \<open>
  \<open>re.sub(pat, '', s)\<close> for a pattern that is a literal string: every occurrence found
  when scanning from the left is dropped, and the scan goes on behind it.
\<close>

function remove_all :: "string \<Rightarrow> string \<Rightarrow> string" where
  "remove_all pat [] = []"
| "remove_all pat (c # cs) =
     (if pat \<noteq> [] \<and> prefix pat (c # cs) then remove_all pat (drop (length pat) (c # cs))
      else c # remove_all pat cs)"
  by pat_completeness auto
termination
  by (relation "measure (\<lambda>(pat, s). length s)") auto

text \<open>
  The lazy \<open>.*?\<close> followed by a closing literal: the shortest run of characters other than
  newline after which the closing literal stands; the result is what follows the match.
\<close>

fun lazy_until :: "string \<Rightarrow> string \<Rightarrow> string option" where
  "lazy_until cl [] = None"
| "lazy_until cl (c # cs) =
     (if prefix cl (c # cs) then Some (drop (length cl) (c # cs))
      else if c = newline then None
      else lazy_until cl cs)"

lemma lazy_until_length [termination_simp]:
  "lazy_until cl s = Some r \<Longrightarrow> length r \<le> length s"
  by (induction s) (auto split: if_splits)

text \<open>\<open>re.sub(op .*? cl, '', s)\<close> for an opening and a closing literal.\<close>

function remove_spans :: "string \<Rightarrow> string \<Rightarrow> string \<Rightarrow> string" where
  "remove_spans op cl [] = []"
| "remove_spans op cl (c # cs) =
     (if op \<noteq> [] \<and> prefix op (c # cs) then
        (case lazy_until cl (drop (length op) (c # cs)) of
           Some rest \<Rightarrow> remove_spans op cl rest
         | None \<Rightarrow> c # remove_spans op cl cs)
      else c # remove_spans op cl cs)"
  by pat_completeness auto
termination
proof (relation "measure (\<lambda>(op, cl, s). length s)")
  fix op cl :: string and c cs rest
  assume "op \<noteq> [] \<and> prefix op (c # cs)" "lazy_until cl (drop (length op) (c # cs)) = Some rest"
  then have "length rest \<le> length (c # cs) - length op" "0 < length op"
    using lazy_until_length [of cl "drop (length op) (c # cs)" rest] by simp_all
  then have "length rest < length (c # cs)"
    by (cases op) simp_all
  then show "((op, cl, rest), (op, cl, c # cs)) \<in> measure (\<lambda>(op, cl, s). length s)"
    by simp
qed auto

text \<open>The seven \<open>template_patterns\<close>, removed one after the other.\<close>

definition remove_template_markers :: "string \<Rightarrow> string" where
  "remove_template_markers s =
     remove_all ''var.'' (remove_all ''template.'' (remove_all ''bid|'' (remove_all ''axis(''
       (remove_spans ''${'' ''}'' (remove_spans ''{{'' ''}}'' (remove_spans ''<<'' ''>>'' s))))))"

text \<open>\<open>re.sub(r'^(axis|bid|itemType|predefinedAlternativeBid)[:|\|]', '', s)\<close>\<close>

definition system_prefixes :: "string list" where
  "system_prefixes = concat (map (\<lambda>p. [p @ '':'', p @ ''|''])
     [''axis'', ''bid'', ''itemType'', ''predefinedAlternativeBid''])"

definition strip_system_prefix :: "string \<Rightarrow> string" where
  "strip_system_prefix s =
     (case find (\<lambda>p. prefix p s) system_prefixes of
        Some p \<Rightarrow> drop (length p) s
      | None \<Rightarrow> s)"

text \<open>
  \<open>re.sub(r'\|.*$', '', s)\<close>: \<open>.\<close> does not match a newline and \<open>$\<close> matches at the end
  or before a final newline, so a pipe starts a match only if no newline follows it except
  as the last character, which then stays.
\<close>

definition reaches_end :: "string \<Rightarrow> bool" where
  "reaches_end t = (newline \<notin> set t \<or> (t \<noteq> [] \<and> last t = newline \<and> newline \<notin> set (butlast t)))"

fun cut_at_pipe :: "string \<Rightarrow> string" where
  "cut_at_pipe [] = []"
| "cut_at_pipe (c # cs) =
     (if c = CHR ''|'' \<and> reaches_end cs
      then (if cs \<noteq> [] \<and> last cs = newline then [newline] else [])
      else c # cut_at_pipe cs)"

text \<open>\<open>re.sub(r'[(){}\[\]]', '', s)\<close>\<close>

definition is_bracket :: "char \<Rightarrow> bool" where
  "is_bracket c = (c \<in> set ''(){}[]'')"

definition remove_brackets :: "string \<Rightarrow> string" where
  "remove_brackets s = filter (\<lambda>c. \<not> is_bracket c) s"

text \<open>
  \<open>re.sub(r'\s+', '_', s)\<close> and \<open>re.sub(r'_+', '_', s)\<close>: every maximal run of characters
  of the class becomes one underscore.
\<close>

fun squeeze :: "(char \<Rightarrow> bool) \<Rightarrow> string \<Rightarrow> string" where
  "squeeze P [] = []"
| "squeeze P [c] = (if P c then ''_'' else [c])"
| "squeeze P (c # d # cs) =
     (if P c then (if P d then squeeze P (d # cs) else CHR ''_'' # squeeze P (d # cs))
      else c # squeeze P (d # cs))"

definition is_underscore :: "char \<Rightarrow> bool" where
  "is_underscore c = (c = CHR ''_'')"

text \<open>\<open>s.strip('_')\<close>\<close>

definition strip_underscores :: "string \<Rightarrow> string" where
  "strip_underscores s = rev (dropWhile is_underscore (rev (dropWhile is_underscore s)))"

definition clean_header_name :: "string \<Rightarrow> string" where
  "clean_header_name raw_header =
     (let cleaned = remove_template_markers raw_header;
          cleaned = strip_system_prefix cleaned;
          cleaned = cut_at_pipe cleaned;
          cleaned = remove_brackets cleaned;
          cleaned = squeeze is_space (strip cleaned);
          cleaned = squeeze is_underscore cleaned;
          cleaned = lower (strip_underscores cleaned)
      in if length cleaned > 0 then cleaned else [])"

text \<open>
  A cleaned header on which a second cleaning finds nothing to remove: no pipe, no
  \<open><<\<dots>>>\<close> span, none of the marker words \<open>template.\<close> and \<open>var.\<close>, and no system prefix
  \<open>axis:\<close> or \<open>bid:\<close> at the start.
\<close>

definition marker_free :: "string \<Rightarrow> bool" where
  "marker_free s =
     (CHR ''|'' \<notin> set s
      \<and> remove_spans ''<<'' ''>>'' s = s
      \<and> remove_all ''template.'' s = s
      \<and> remove_all ''var.'' s = s
      \<and> \<not> prefix ''axis:'' s \<and> \<not> prefix ''bid:'' s)"

subsection \<open>Properties of strings used to reason about cleaning\<close>

text \<open>No two neighbouring characters of the class.\<close>

fun no_run :: "(char \<Rightarrow> bool) \<Rightarrow> string \<Rightarrow> bool" where
  "no_run P [] = True"
| "no_run P [c] = True"
| "no_run P (c # d # cs) = (\<not> (P c \<and> P d) \<and> no_run P (d # cs))"

text \<open>Neither the first nor the last character is of the class.\<close>

definition trimmed :: "(char \<Rightarrow> bool) \<Rightarrow> string \<Rightarrow> bool" where
  "trimmed P s = (s = [] \<or> (\<not> P (hd s) \<and> \<not> P (last s)))"

text \<open>The last stages of the pipeline, applied to any string.\<close>

definition normalise :: "string \<Rightarrow> string" where
  "normalise y = lower (strip_underscores (squeeze is_underscore (squeeze is_space (strip
     (remove_brackets y)))))"

section \<open>Semantic Header Validator: parsing the response (\<open>enhanced_header_detector.py\<close>)\<close>

text \<open>
  A decoded JSON value.  \<open>json.loads\<close> belongs to the Python library, not to the
  repository; it is a parameter \<open>loads\<close> of the model that either returns a value or
  raises, the exception being represented by its message.
\<close>

datatype json = JNull | JBool bool | JNum rat | JStr string | JArr "json list"
  | JObj "(string \<times> json) list"

fun json_get :: "json \<Rightarrow> string \<Rightarrow> json option" where
  "json_get (JObj d) k = map_of d k"
| "json_get v k = None"

text \<open>
  \<open>re.search(r'\{.*\}', response_text, re.DOTALL)\<close>: with \<open>DOTALL\<close> the greedy \<open>.*\<close>
  runs over newlines too, so the match goes from the first opening brace to the last
  closing brace behind it.
\<close>

definition find_json_span :: "string \<Rightarrow> string option" where
  "find_json_span s =
     (let t = dropWhile (\<lambda>c. c \<noteq> CHR ''{'') s
      in if t = [] then None
         else (let u = rev (dropWhile (\<lambda>c. c \<noteq> CHR ''}'') (rev (tl t)))
               in if u = [] then None else Some (CHR ''{'' # u)))"

text \<open>The body of the \<open>try\<close> block; \<open>Inl\<close> is an exception raised inside it.\<close>

definition parse_attempt :: "(string \<Rightarrow> string + json) \<Rightarrow> string \<Rightarrow> string + json" where
  "parse_attempt loads response_text =
     (case find_json_span response_text of
        Some json_match \<Rightarrow> loads json_match
      | None \<Rightarrow> Inr (JObj [(''validated_mapping'', JObj []), (''confidence'', JNum (1 / 2)),
                            (''reasoning'', JStr response_text), (''improvements'', JArr [])]))"

definition parse_openai_response :: "(string \<Rightarrow> string + json) \<Rightarrow> string \<Rightarrow> json" where
  "parse_openai_response loads response_text =
     (case parse_attempt loads response_text of
        Inr result \<Rightarrow> result
      | Inl e \<Rightarrow> JObj [(''validated_mapping'', JObj []), (''confidence'', JNum 0),
                        (''reasoning'', JStr (''Parsing error: '' @ e)), (''improvements'', JArr [])])"

text \<open>A decoder that raises on every input, for evaluating the branches that do not decode.\<close>

definition failing_loads :: "string \<Rightarrow> string + json" where
  "failing_loads s = Inl ''Expecting property name enclosed in double quotes''"

section \<open>Properties of the Column Fillability Analyzer\<close>

lemma diversity_signal_nonneg: "0 \<le> fst (diversity_signal es fs)"
  by (simp add: diversity_signal_def Let_def)

lemma numeric_signal_nonneg: "0 \<le> fst (numeric_signal vs)"
  by (simp add: numeric_signal_def Let_def)

lemma structured_signal_nonneg: "0 \<le> fst (structured_signal vs)"
  by (simp add: structured_signal_def Let_def)

lemma residual_score_nonneg: "0 \<le> residual_score ev fv"
  unfolding residual_score_def
  by (intro add_nonneg_nonneg)
    (simp_all add: diversity_signal_nonneg numeric_signal_nonneg structured_signal_nonneg)

lemma total_rows_zero:
  "min (length (sample_values er k)) (length (sample_values fr k)) = 0 \<longleftrightarrow> er = [] \<or> fr = []"
  by (auto simp add: sample_values_def min_def)

text \<open>The fields of the full result, when both samples have a row.\<close>

lemma analyze_fields:
  fixes empty_rows filled_rows :: "row list" and column_key :: string
  assumes "empty_rows \<noteq> []" "filled_rows \<noteq> []"
  defines "r \<equiv> analyze_column_filling_patterns empty_rows filled_rows column_key"
  defines "ev \<equiv> sample_values empty_rows column_key"
  defines "fv \<equiv> sample_values filled_rows column_key"
  defines "er \<equiv> (of_nat (length (filter non_empty ev)) / of_nat (min (length ev) (length fv)) :: rat)"
  defines "fr \<equiv> (of_nat (length (filter non_empty fv)) / of_nat (min (length ev) (length fv)) :: rat)"
  shows "map_of r ''empty_ratio'' = Some (PNum er)"
    and "map_of r ''filled_ratio'' = Some (PNum fr)"
    and "map_of r ''confidence''
          = Some (PNum (min (fst (transition_signal er fr) + residual_score ev fv) 1))"
    and "map_of r ''fillable''
          = Some (PBool (min (fst (transition_signal er fr) + residual_score ev fv) 1 \<ge> 3 / 10))"
    and "\<exists>rest. map_of r ''reasons'' = Some (PStrList (snd (transition_signal er fr) @ rest))"
proof -
  have t: "min (length (sample_values empty_rows column_key))
             (length (sample_values filled_rows column_key)) \<noteq> 0"
    using assms(1,2) by (simp add: total_rows_zero)
  show "map_of r ''empty_ratio'' = Some (PNum er)"
    unfolding r_def analyze_column_filling_patterns_def Let_def if_not_P [OF t]
    by (simp add: er_def ev_def fv_def)
  show "map_of r ''filled_ratio'' = Some (PNum fr)"
    unfolding r_def analyze_column_filling_patterns_def Let_def if_not_P [OF t]
    by (simp add: fr_def ev_def fv_def)
  show "map_of r ''confidence''
          = Some (PNum (min (fst (transition_signal er fr) + residual_score ev fv) 1))"
    unfolding r_def analyze_column_filling_patterns_def Let_def if_not_P [OF t]
    by (simp add: er_def fr_def ev_def fv_def residual_score_def add.assoc)
  show "map_of r ''fillable''
          = Some (PBool (min (fst (transition_signal er fr) + residual_score ev fv) 1 \<ge> 3 / 10))"
    unfolding r_def analyze_column_filling_patterns_def Let_def if_not_P [OF t]
    by (simp add: er_def fr_def ev_def fv_def residual_score_def add.assoc)
  show "\<exists>rest. map_of r ''reasons'' = Some (PStrList (snd (transition_signal er fr) @ rest))"
    unfolding r_def analyze_column_filling_patterns_def Let_def if_not_P [OF t]
    by (simp add: er_def fr_def ev_def fv_def)
qed

lemma scenario_empty_ratio:
  "map_of (analyze_column_filling_patterns scenario_empty_rows scenario_filled_rows ''rate'')
     ''empty_ratio'' = Some (PNum 0)"
  by (simp add: analyze_column_filling_patterns_def scenario_empty_rows_def
      scenario_filled_rows_def sample_values_def strip_def dict_get_def is_space_def code_def
      Let_def non_empty_def)

lemma scenario_filled_ratio:
  "map_of (analyze_column_filling_patterns scenario_empty_rows scenario_filled_rows ''rate'')
     ''filled_ratio'' = Some (PNum (3 / 4))"
  by (simp add: analyze_column_filling_patterns_def scenario_empty_rows_def
      scenario_filled_rows_def sample_values_def strip_def dict_get_def is_space_def code_def
      Let_def non_empty_def)

text \<open>
  Claim C1.  When both samples have at least one row, the empty ratio the analyzer reports
  is at most 0.1 and the filled ratio it reports is at least 0.3, the result is fillable,
  its confidence is at least 0.8 and its reasons contain the tag \<open>empty_to_filled\<close>.
\<close>

theorem empty_to_filled_is_fillable:
  assumes ne: "empty_rows \<noteq> []" "filled_rows \<noteq> []"
    and er: "map_of (analyze_column_filling_patterns empty_rows filled_rows column_key)
               ''empty_ratio'' = Some (PNum er)"
    and fr: "map_of (analyze_column_filling_patterns empty_rows filled_rows column_key)
               ''filled_ratio'' = Some (PNum fr)"
    and le: "er \<le> 1 / 10" and ge: "fr \<ge> 3 / 10"
  shows "map_of (analyze_column_filling_patterns empty_rows filled_rows column_key) ''fillable''
           = Some (PBool True)
    \<and> (\<exists>c. map_of (analyze_column_filling_patterns empty_rows filled_rows column_key)
             ''confidence'' = Some (PNum c) \<and> c \<ge> 8 / 10)
    \<and> (\<exists>rs. map_of (analyze_column_filling_patterns empty_rows filled_rows column_key)
             ''reasons'' = Some (PStrList rs) \<and> ''empty_to_filled'' \<in> set rs)"
proof -
  let ?ev = "sample_values empty_rows column_key"
  let ?fv = "sample_values filled_rows column_key"
  note f = analyze_fields [OF ne, of column_key]
  from er f(1)
  have er': "of_nat (length (filter non_empty ?ev)) / of_nat (min (length ?ev) (length ?fv)) = er"
    by simp
  from fr f(2)
  have fr': "of_nat (length (filter non_empty ?fv)) / of_nat (min (length ?ev) (length ?fv)) = fr"
    by simp
  have s12: "transition_signal er fr = (8 / 10, [''empty_to_filled''])"
    using le ge by (simp add: transition_signal_def)
  define c where "c = min (fst (transition_signal er fr) + residual_score ?ev ?fv) 1"
  have c8: "8 / 10 \<le> c"
    using residual_score_nonneg [of ?ev ?fv] by (simp add: c_def s12)
  then have c3: "3 / 10 \<le> c" by simp
  have A: "map_of (analyze_column_filling_patterns empty_rows filled_rows column_key) ''fillable''
      = Some (PBool True)"
    using f(4) c3 unfolding er' fr' c_def [symmetric] by simp
  have B: "map_of (analyze_column_filling_patterns empty_rows filled_rows column_key) ''confidence''
      = Some (PNum c)"
    using f(3) unfolding er' fr' c_def [symmetric] .
  from f(5) obtain rest where
    "map_of (analyze_column_filling_patterns empty_rows filled_rows column_key) ''reasons''
       = Some (PStrList (snd (transition_signal er fr) @ rest))"
    unfolding er' fr' by blast
  then have C: "map_of (analyze_column_filling_patterns empty_rows filled_rows column_key) ''reasons''
       = Some (PStrList (''empty_to_filled'' # rest))"
    by (simp add: s12)
  show ?thesis
  proof (intro conjI)
    show "map_of (analyze_column_filling_patterns empty_rows filled_rows column_key) ''fillable''
      = Some (PBool True)" by (rule A)
    show "\<exists>c. map_of (analyze_column_filling_patterns empty_rows filled_rows column_key)
      ''confidence'' = Some (PNum c) \<and> 8 / 10 \<le> c" using B c8 by blast
    show "\<exists>rs. map_of (analyze_column_filling_patterns empty_rows filled_rows column_key)
      ''reasons'' = Some (PStrList rs) \<and> ''empty_to_filled'' \<in> set rs" using C by simp
  qed
qed

theorem empty_to_filled_is_fillable_witness:
  "scenario_empty_rows \<noteq> [] \<and> scenario_filled_rows \<noteq> []
   \<and> map_of (analyze_column_filling_patterns scenario_empty_rows scenario_filled_rows ''rate'')
        ''empty_ratio'' = Some (PNum 0)
   \<and> map_of (analyze_column_filling_patterns scenario_empty_rows scenario_filled_rows ''rate'')
        ''filled_ratio'' = Some (PNum (3 / 4))
   \<and> (0 :: rat) \<le> 1 / 10 \<and> (3 / 4 :: rat) \<ge> 3 / 10
   \<and> map_of (analyze_column_filling_patterns scenario_empty_rows scenario_filled_rows ''rate'')
        ''fillable'' = Some (PBool True)
   \<and> (\<exists>c. map_of (analyze_column_filling_patterns scenario_empty_rows scenario_filled_rows ''rate'')
        ''confidence'' = Some (PNum c) \<and> c \<ge> 8 / 10)
   \<and> (\<exists>rs. map_of (analyze_column_filling_patterns scenario_empty_rows scenario_filled_rows ''rate'')
        ''reasons'' = Some (PStrList rs) \<and> ''empty_to_filled'' \<in> set rs)"
proof -
  have ne: "scenario_empty_rows \<noteq> []" "scenario_filled_rows \<noteq> []"
    by (simp_all add: scenario_empty_rows_def scenario_filled_rows_def)
  have le: "(0 :: rat) \<le> 1 / 10" "(3 / 4 :: rat) \<ge> 3 / 10" by simp_all
  show ?thesis
    using empty_to_filled_is_fillable [OF ne scenario_empty_ratio scenario_filled_ratio le]
      ne scenario_empty_ratio scenario_filled_ratio
    by simp
qed

text \<open>
  Claim C9.  When the empty version or the filled version contributes no row, so that the
  shorter sample is empty, the analyzer returns exactly the dictionary
  \<open>{"fillable": False, "confidence": 0.0, "reason": "no_data"}\<close>; the model is a total
  function, no error is raised on the way.
\<close>

theorem no_overlap_gives_no_data:
  assumes "empty_rows = [] \<or> filled_rows = []"
  shows "analyze_column_filling_patterns empty_rows filled_rows column_key =
    [(''fillable'', PBool False), (''confidence'', PNum 0), (''reason'', PStr ''no_data'')]"
  using assms by (auto simp add: analyze_column_filling_patterns_def sample_values_def)

theorem no_overlap_gives_no_data_witness:
  "(([] :: row list) = [] \<or> [[(''rate'', ''12'')]] = ([] :: row list)) \<and>
   analyze_column_filling_patterns [] [[(''rate'', ''12'')]] ''rate'' =
    [(''fillable'', PBool False), (''confidence'', PNum 0), (''reason'', PStr ''no_data'')]"
  using no_overlap_gives_no_data [of "[]" "[[(''rate'', ''12'')]]" "''rate''"] by simp

text \<open>
  Claim C10.  A sampled value counts as non-empty exactly when its stripped string is
  neither empty nor \<open>"0"\<close>; each count runs over the whole sample of its own version (the
  first 200 rows); both ratios are divided by the smaller of the two sample lengths; and
  for all sample lengths \<open>n < m\<close> (the filled sample having a row, so that ratios are
  returned at all) there are inputs of these lengths whose reported empty ratio exceeds 1.
\<close>

theorem ratio_denominator_is_min_length:
  fixes empty_rows filled_rows :: "row list" and column_key :: string and m n :: nat
  assumes ne: "empty_rows \<noteq> []" "filled_rows \<noteq> []"
    and mn: "0 < n" "n < m" "m \<le> 200"
  defines "r \<equiv> analyze_column_filling_patterns empty_rows filled_rows column_key"
  defines "cnt \<equiv> \<lambda>rows. length (filter (\<lambda>v. v \<noteq> [] \<and> v \<noteq> ''0'')
      (map (\<lambda>row. strip (dict_get row column_key [])) (take 200 rows)))"
  defines "tot \<equiv> min (length (take 200 empty_rows)) (length (take 200 filled_rows))"
  shows "map_of r ''empty_count'' = Some (PInt (cnt empty_rows))
    \<and> map_of r ''filled_count'' = Some (PInt (cnt filled_rows))
    \<and> map_of r ''total_rows'' = Some (PInt tot)
    \<and> map_of r ''empty_ratio'' = Some (PNum (of_nat (cnt empty_rows) / of_nat tot))
    \<and> map_of r ''filled_ratio'' = Some (PNum (of_nat (cnt filled_rows) / of_nat tot))
    \<and> (\<exists>es fs q. length (sample_values es column_key) = m
          \<and> length (sample_values fs column_key) = n
          \<and> map_of (analyze_column_filling_patterns es fs column_key) ''empty_ratio''
              = Some (PNum q)
          \<and> 1 < q)"
proof -
  have ne_eq: "non_empty = (\<lambda>v. v \<noteq> [] \<and> v \<noteq> ''0'')"
    by (auto simp add: non_empty_def fun_eq_iff)
  have t: "min (length (sample_values empty_rows column_key))
             (length (sample_values filled_rows column_key)) \<noteq> 0"
    using ne by (simp add: total_rows_zero)
  have 1: "map_of r ''empty_count'' = Some (PInt (cnt empty_rows))"
    unfolding r_def analyze_column_filling_patterns_def Let_def if_not_P [OF t]
    by (simp add: cnt_def sample_values_def ne_eq)
  have 2: "map_of r ''filled_count'' = Some (PInt (cnt filled_rows))"
    unfolding r_def analyze_column_filling_patterns_def Let_def if_not_P [OF t]
    by (simp add: cnt_def sample_values_def ne_eq)
  have 3: "map_of r ''total_rows'' = Some (PInt tot)"
    unfolding r_def analyze_column_filling_patterns_def Let_def if_not_P [OF t]
    by (simp add: tot_def sample_values_def)
  have 4: "map_of r ''empty_ratio'' = Some (PNum (of_nat (cnt empty_rows) / of_nat tot))"
    using analyze_fields(1) [OF ne, of column_key]
    by (simp add: r_def cnt_def tot_def sample_values_def ne_eq)
  have 5: "map_of r ''filled_ratio'' = Some (PNum (of_nat (cnt filled_rows) / of_nat tot))"
    using analyze_fields(2) [OF ne, of column_key]
    by (simp add: r_def cnt_def tot_def sample_values_def ne_eq)
  define es :: "row list" where "es = replicate m [(column_key, ''x'')]"
  define fs :: "row list" where "fs = replicate n []"
  have les: "length (sample_values es column_key) = m"
    using mn by (simp add: es_def sample_values_def)
  have lfs: "length (sample_values fs column_key) = n"
    using mn by (simp add: fs_def sample_values_def)
  have sx: "strip ''x'' = ''x''"
    by (simp add: strip_def is_space_def code_def)
  have ves: "sample_values es column_key = replicate m ''x''"
    using mn by (simp add: es_def sample_values_def dict_get_def sx)
  have ces: "length (filter non_empty (sample_values es column_key)) = m"
    by (simp add: ves non_empty_def)
  have nes: "es \<noteq> []" "fs \<noteq> []" using mn by (auto simp add: es_def fs_def)
  have q: "map_of (analyze_column_filling_patterns es fs column_key) ''empty_ratio''
      = Some (PNum (of_nat m / of_nat n))"
    using analyze_fields(1) [OF nes, of column_key] mn by (simp add: les lfs ces)
  have "(1::rat) < of_nat m / of_nat n" using mn by simp
  with q les lfs
  have 6: "\<exists>es fs q. length (sample_values es column_key) = m
          \<and> length (sample_values fs column_key) = n
          \<and> map_of (analyze_column_filling_patterns es fs column_key) ''empty_ratio''
              = Some (PNum q)
          \<and> 1 < q" by blast
  from 1 2 3 4 5 6 show ?thesis by blast
qed

theorem ratio_denominator_is_min_length_witness:
  "[[(''rate'', ''7'')], [(''rate'', ''8'')]] \<noteq> ([] :: row list)
   \<and> [[(''rate'', ''9'')]] \<noteq> ([] :: row list)
   \<and> (0 :: nat) < 1 \<and> (1 :: nat) < 2 \<and> (2 :: nat) \<le> 200
   \<and> map_of (analyze_column_filling_patterns [[(''rate'', ''7'')], [(''rate'', ''8'')]]
        [[(''rate'', ''9'')]] ''rate'') ''empty_ratio'' = Some (PNum 2)"
proof -
  have s: "strip ''7'' = ''7''" "strip ''8'' = ''8''"
    by (simp_all add: strip_def is_space_def code_def)
  show ?thesis
    using ratio_denominator_is_min_length [of "[[(''rate'', ''7'')], [(''rate'', ''8'')]]"
        "[[(''rate'', ''9'')]]" 1 2 "''rate''"]
    by (simp add: dict_get_def s)
qed

section \<open>Properties of the merge\<close>

lemma sorted_set_eq: "sorted_set xs = sorted_list_of_set (set xs)"
  by (simp add: sorted_set_def sorted_list_of_set_sort_remdups)

lemma dict_get_or_empty: "dict_get d k [] = or_empty (map_of d k)"
  by (simp add: dict_get_def or_empty_def)

lemma incoming_variants_Cons:
  "incoming_variants ((n, v) # rest) k = (if k = n then set v else {}) \<union> incoming_variants rest k"
  by (auto simp add: incoming_variants_def)

lemma finite_incoming_variants: "finite (incoming_variants entries k)"
  by (simp add: incoming_variants_def)

lemma incoming_variants_notin: "k \<notin> fst ` set entries \<Longrightarrow> incoming_variants entries k = {}"
  by (force simp add: incoming_variants_def)

lemma or_empty_simps [simp]: "or_empty None = []" "or_empty (Some xs) = xs"
  by (simp_all add: or_empty_def)

lemma in_keys: "(k, b) \<in> set entries \<Longrightarrow> k \<in> fst ` set entries"
  by force

lemma hmerge_Nil: "hmerge h [] = h"
  by (simp add: hmerge_def fun_eq_iff)

lemma hmerge_Cons:
  "hmerge h ((n, v) # rest)
     = hmerge (h(n \<mapsto> sorted_list_of_set (set (or_empty (h n)) \<union> set v))) rest"
proof
  fix k
  show "hmerge h ((n, v) # rest) k
     = hmerge (h(n \<mapsto> sorted_list_of_set (set (or_empty (h n)) \<union> set v))) rest k"
    by (auto simp add: hmerge_def incoming_variants_Cons finite_incoming_variants
        incoming_variants_notin Un_assoc in_keys)
qed

lemma map_of_merge_header_map: "map_of (merge_header_map t entries) = hmerge (map_of t) entries"
proof (induction entries arbitrary: t)
  case Nil
  show ?case by (simp add: hmerge_Nil)
next
  case (Cons e entries)
  obtain n v where e: "e = (n, v)" by (cases e)
  show ?case
    by (simp add: e Cons.IH update_conv' hmerge_Cons sorted_set_eq dict_get_or_empty
        fun_upd_def)
qed

lemma hmerge_idem: "hmerge (hmerge h a) a = hmerge h a"
  by (auto simp add: hmerge_def fun_eq_iff finite_incoming_variants Un_assoc)

lemma hmerge_comm: "hmerge (hmerge h a) b = hmerge (hmerge h b) a"
  by (auto simp add: hmerge_def fun_eq_iff finite_incoming_variants Un_ac)

lemma vmerge_idem: "vmerge p (vmerge p v) = vmerge p v"
  by (cases v) (simp add: vmerge_def option.map_comp comp_def hmerge_idem Un_assoc)

lemma vmerge_comm: "vmerge p (vmerge q v) = vmerge q (vmerge p v)"
proof -
  have "(\<lambda>h. hmerge (hmerge h (or_empty (header_map q))) (or_empty (header_map p)))
      = (\<lambda>h. hmerge (hmerge h (or_empty (header_map p))) (or_empty (header_map q)))"
    by (rule ext) (rule hmerge_comm)
  then show ?thesis
    by (cases v) (simp add: vmerge_def option.map_comp comp_def Un_ac)
qed

lemma fold_vmerge_swap: "vmerge p (fold vmerge ps v) = fold vmerge ps (vmerge p v)"
  by (induction ps arbitrary: v) (simp_all add: vmerge_comm)

lemma fold_vmerge_idem: "fold vmerge ps (fold vmerge ps v) = fold vmerge ps v"
proof (induction ps arbitrary: v)
  case Nil
  show ?case by simp
next
  case (Cons p ps)
  have "fold vmerge (p # ps) (fold vmerge (p # ps) v)
      = fold vmerge ps (vmerge p (fold vmerge ps (vmerge p v)))" by simp
  also have "\<dots> = fold vmerge ps (fold vmerge ps (vmerge p (vmerge p v)))"
    by (simp add: fold_vmerge_swap)
  also have "\<dots> = fold vmerge ps (vmerge p v)"
    by (simp add: vmerge_idem Cons.IH)
  finally show ?case by simp
qed

lemma fold_vmerge_comm: "fold vmerge ps (fold vmerge qs v) = fold vmerge qs (fold vmerge ps v)"
proof (induction ps arbitrary: v)
  case Nil
  show ?case by simp
next
  case (Cons p ps)
  show ?case by (simp add: Cons.IH fold_vmerge_swap)
qed

lemma update_field_Inr:
  "update_field name f tgt entries = Inr r \<longleftrightarrow>
     (entries = [] \<and> r = tgt) \<or> (entries \<noteq> [] \<and> (\<exists>t. tgt = Some t \<and> r = Some (f t entries)))"
  by (auto simp add: update_field_def split: option.splits)

lemma update_field_None:
  "update_field name f tgt entries = Inr r \<Longrightarrow> r = None \<longleftrightarrow> tgt = None"
  by (auto simp add: update_field_Inr)

lemma update_field_ok:
  "(\<exists>r. update_field name f tgt entries = Inr r) \<longleftrightarrow> \<not> (tgt = None \<and> entries \<noteq> [])"
  by (auto simp add: update_field_def split: option.splits)

lemma merge_sheet_Inr:
  assumes "merge_sheet t p = Inr t'"
  obtains hm cp vf where
    "update_field ''header_map'' merge_header_map (header_map t) (or_empty (header_map p)) = Inr hm"
    "update_field ''column_positions'' overwrite (column_positions t) (or_empty (column_positions p)) = Inr cp"
    "update_field ''verifications'' overwrite (verifications t) (or_empty (verifications p)) = Inr vf"
    "t' = t\<lparr>header_map := hm,
            columns_to_fill := Some (sorted_set (or_empty (columns_to_fill t) @ or_empty (columns_to_fill p))),
            column_positions := cp, verifications := vf\<rparr>"
  using assms by (auto simp add: merge_sheet_def Let_def split: sum.splits)

lemma merge_sheet_view:
  assumes "merge_sheet t p = Inr t'"
  shows "sheet_view t' = vmerge p (sheet_view t)"
proof -
  from assms obtain hm cp vf where
    hm: "update_field ''header_map'' merge_header_map (header_map t) (or_empty (header_map p)) = Inr hm"
    and t': "t' = t\<lparr>header_map := hm,
            columns_to_fill := Some (sorted_set (or_empty (columns_to_fill t) @ or_empty (columns_to_fill p))),
            column_positions := cp, verifications := vf\<rparr>"
    by (rule merge_sheet_Inr)
  have "map_option map_of hm
      = map_option (\<lambda>h. hmerge h (or_empty (header_map p))) (map_option map_of (header_map t))"
    using hm by (auto simp add: update_field_Inr hmerge_Nil map_of_merge_header_map option.map_comp
        comp_def option.map_ident)
  then show ?thesis
    by (simp add: t' sheet_view_def vmerge_def sorted_set_eq)
qed

lemma merge_sheet_shape:
  assumes "merge_sheet t p = Inr t'"
  shows "shape t' = shape t"
proof -
  from assms obtain hm cp vf where
    "update_field ''header_map'' merge_header_map (header_map t) (or_empty (header_map p)) = Inr hm"
    "update_field ''column_positions'' overwrite (column_positions t) (or_empty (column_positions p)) = Inr cp"
    "update_field ''verifications'' overwrite (verifications t) (or_empty (verifications p)) = Inr vf"
    "t' = t\<lparr>header_map := hm,
            columns_to_fill := Some (sorted_set (or_empty (columns_to_fill t) @ or_empty (columns_to_fill p))),
            column_positions := cp, verifications := vf\<rparr>"
    by (rule merge_sheet_Inr)
  then show ?thesis
    by (simp add: shape_def update_field_None)
qed

lemma merge_sheet_ok: "(\<exists>t'. merge_sheet t p = Inr t') \<longleftrightarrow> fits (shape t) p"
proof -
  have "(\<exists>t'. merge_sheet t p = Inr t') \<longleftrightarrow>
      (\<exists>hm. update_field ''header_map'' merge_header_map (header_map t) (or_empty (header_map p)) = Inr hm)
    \<and> (\<exists>cp. update_field ''column_positions'' overwrite (column_positions t) (or_empty (column_positions p)) = Inr cp)
    \<and> (\<exists>vf. update_field ''verifications'' overwrite (verifications t) (or_empty (verifications p)) = Inr vf)"
    by (auto simp add: merge_sheet_def Let_def split: sum.splits)
  then show ?thesis
    unfolding update_field_ok by (simp add: fits_def shape_def)
qed

lemma dict_get_update:
  "dict_get (AList.update k v d) s dflt = (if s = k then v else dict_get d s dflt)"
  by (simp add: dict_get_def update_conv')

lemma payloads_for_Cons:
  "payloads_for ((n, p) # rest) s = (if n = s then p # payloads_for rest s else payloads_for rest s)"
  by (simp add: payloads_for_def)

lemma merge_sheets_view:
  "merge_sheets out entries = Inr out' \<Longrightarrow>
     sheet_view (dict_get out' s default_sheet)
       = fold vmerge (payloads_for entries s) (sheet_view (dict_get out s default_sheet))"
proof (induction entries arbitrary: out)
  case Nil
  then show ?case by (simp add: payloads_for_def)
next
  case (Cons e entries)
  obtain n p where e: "e = (n, p)" by (cases e)
  from Cons.prems obtain t where
    t: "merge_sheet (dict_get out n default_sheet) p = Inr t"
    and rest: "merge_sheets (AList.update n t out) entries = Inr out'"
    by (auto simp add: e split: sum.splits)
  show ?case
    using Cons.IH [OF rest] merge_sheet_view [OF t]
    by (simp add: e payloads_for_Cons dict_get_update)
qed

lemma merge_sheets_dom:
  "merge_sheets out entries = Inr out' \<Longrightarrow>
     map_of out' s = None \<longleftrightarrow> map_of out s = None \<and> payloads_for entries s = []"
proof (induction entries arbitrary: out)
  case Nil
  then show ?case by (simp add: payloads_for_def)
next
  case (Cons e entries)
  obtain n p where e: "e = (n, p)" by (cases e)
  from Cons.prems obtain t where
    rest: "merge_sheets (AList.update n t out) entries = Inr out'"
    by (auto simp add: e split: sum.splits)
  show ?case
    using Cons.IH [OF rest]
    by (auto simp add: e payloads_for_Cons update_conv')
qed

lemma merge_sheets_shape:
  "merge_sheets out entries = Inr out' \<Longrightarrow> shape_at out' s = shape_at out s"
proof (induction entries arbitrary: out)
  case Nil
  then show ?case by simp
next
  case (Cons e entries)
  obtain n p where e: "e = (n, p)" by (cases e)
  from Cons.prems obtain t where
    t: "merge_sheet (dict_get out n default_sheet) p = Inr t"
    and rest: "merge_sheets (AList.update n t out) entries = Inr out'"
    by (auto simp add: e split: sum.splits)
  show ?case
    using Cons.IH [OF rest] merge_sheet_shape [OF t]
    by (simp add: shape_at_def dict_get_update)
qed

lemma shape_at_update:
  "merge_sheet (dict_get out n default_sheet) p = Inr t \<Longrightarrow> shape_at (AList.update n t out) = shape_at out"
  by (rule ext) (simp add: shape_at_def dict_get_update merge_sheet_shape)

lemma merge_sheets_ok:
  "(\<exists>out'. merge_sheets out entries = Inr out')
     \<longleftrightarrow> list_all (\<lambda>x. fits (shape_at out (fst x)) (snd x)) entries"
proof (induction entries arbitrary: out)
  case Nil
  show ?case by simp
next
  case (Cons e entries)
  obtain n p where e: "e = (n, p)" by (cases e)
  show ?case
  proof (cases "merge_sheet (dict_get out n default_sheet) p")
    case (Inl err)
    then have "\<not> fits (shape_at out n) p"
      using merge_sheet_ok [of "dict_get out n default_sheet" p] by (simp add: shape_at_def)
    with Inl show ?thesis by (simp add: e)
  next
    case (Inr t)
    then have "fits (shape_at out n) p"
      using merge_sheet_ok [of "dict_get out n default_sheet" p] by (simp add: shape_at_def)
    with Inr show ?thesis
      by (simp add: e Cons.IH shape_at_update [OF Inr])
  qed
qed

subsection \<open>The whole store\<close>

lemma merge_patterns_Inr:
  assumes "merge_patterns S I = Inr X"
  shows "(or_empty (sheets I) = [] \<and> X = S)
     \<or> (\<exists>out out'. sheets S = Some out \<and> merge_sheets out (or_empty (sheets I)) = Inr out'
          \<and> X = S\<lparr>sheets := Some out'\<rparr>)"
  using assms by (auto simp add: merge_patterns_def split: if_splits option.splits sum.splits)

lemma merge_patterns_view:
  assumes "merge_patterns S I = Inr X"
  shows "store_view X s = fold vmerge (payloads_for (or_empty (sheets I)) s) (store_view S s)"
  using merge_patterns_Inr [OF assms]
  by (auto simp add: store_view_def payloads_for_def merge_sheets_view)

lemma merge_patterns_dom:
  assumes "merge_patterns S I = Inr X"
  shows "sheet_of X s = None \<longleftrightarrow> sheet_of S s = None \<and> payloads_for (or_empty (sheets I)) s = []"
  using merge_patterns_Inr [OF assms]
  by (auto simp add: sheet_of_def payloads_for_def merge_sheets_dom)

lemma merge_patterns_shape:
  assumes "merge_patterns S I = Inr X"
  shows "store_shape X = store_shape S"
proof -
  from merge_patterns_Inr [OF assms] show ?thesis
  proof (elim disjE conjE exE)
    assume "X = S" then show ?thesis by simp
  next
    fix out out'
    assume "sheets S = Some out" "merge_sheets out (or_empty (sheets I)) = Inr out'"
      "X = S\<lparr>sheets := Some out'\<rparr>"
    then show ?thesis
      by (simp add: store_shape_def fun_eq_iff merge_sheets_shape)
  qed
qed

lemma merge_patterns_ok: "(\<exists>X. merge_patterns S I = Inr X) \<longleftrightarrow> accepts (store_shape S) I"
proof (cases "or_empty (sheets I) = []")
  case True
  then show ?thesis by (simp add: merge_patterns_def accepts_def)
next
  case False
  show ?thesis
  proof (cases "sheets S")
    case None
    with False show ?thesis by (simp add: merge_patterns_def accepts_def store_shape_def)
  next
    case (Some out)
    have "(\<exists>X. merge_patterns S I = Inr X) \<longleftrightarrow> (\<exists>out'. merge_sheets out (or_empty (sheets I)) = Inr out')"
      using False Some by (auto simp add: merge_patterns_def split: sum.splits)
    then show ?thesis
      using False Some by (simp add: merge_sheets_ok accepts_def store_shape_def)
  qed
qed

lemma fields_from_view:
  "fillable_list S s = (if sheet_of S s = None then None else Some (fst (store_view S s)))"
  "header_variants S s = (if sheet_of S s = None then None else Some (snd (store_view S s)))"
  by (auto simp add: fillable_list_def header_variants_def store_view_def sheet_of_def
      sheet_view_def dict_get_def)

text \<open>
  Claim C3.  Merging the same incoming patterns a second time into the result of a
  successful merge succeeds again and leaves, for every sheet, the fillable list and the
  header map (as a dictionary of variant lists) as they were after the first merge.
\<close>

theorem merge_idempotent:
  assumes "merge_patterns S I = Inr S1"
  shows "\<exists>S2. merge_patterns S1 I = Inr S2
    \<and> (\<forall>sheet. fillable_list S2 sheet = fillable_list S1 sheet
              \<and> header_variants S2 sheet = header_variants S1 sheet)"
proof -
  have "accepts (store_shape S) I" using assms merge_patterns_ok by blast
  then have "accepts (store_shape S1) I" by (simp add: merge_patterns_shape [OF assms])
  then obtain S2 where S2: "merge_patterns S1 I = Inr S2" using merge_patterns_ok by blast
  have "fillable_list S2 sheet = fillable_list S1 sheet
      \<and> header_variants S2 sheet = header_variants S1 sheet" for sheet
  proof -
    have v: "store_view S2 sheet = store_view S1 sheet"
      by (simp add: merge_patterns_view [OF S2] merge_patterns_view [OF assms] fold_vmerge_idem)
    have d: "sheet_of S2 sheet = None \<longleftrightarrow> sheet_of S1 sheet = None"
      using merge_patterns_dom [OF S2, of sheet] merge_patterns_dom [OF assms, of sheet] by blast
    show ?thesis by (simp add: fields_from_view v d)
  qed
  with S2 show ?thesis by blast
qed

text \<open>
  Claim C4.  Merging \<open>A\<close> then \<open>B\<close> raises exactly when merging \<open>B\<close> then \<open>A\<close> raises,
  and when both succeed the two results have, for every sheet, identical fillable lists and
  identical header maps.  Column positions and verifications are not compared.
\<close>

theorem merge_commutative:
  "(isl (merge_twice S A B) \<longleftrightarrow> isl (merge_twice S B A))
   \<and> (\<forall>X Y. merge_twice S A B = Inr X \<and> merge_twice S B A = Inr Y \<longrightarrow>
        (\<forall>sheet. fillable_list X sheet = fillable_list Y sheet
               \<and> header_variants X sheet = header_variants Y sheet))"
proof (rule conjI)
  have ok: "(\<exists>X. merge_twice S P Q = Inr X) \<longleftrightarrow> accepts (store_shape S) P \<and> accepts (store_shape S) Q"
    for P Q
  proof (cases "merge_patterns S P")
    case (Inl e)
    then have "\<not> accepts (store_shape S) P" using merge_patterns_ok [of S P] by simp
    with Inl show ?thesis by (simp add: merge_twice_def)
  next
    case (Inr S1)
    then have "accepts (store_shape S) P" using merge_patterns_ok [of S P] by blast
    with Inr show ?thesis
      using merge_patterns_ok [of S1 Q] by (simp add: merge_twice_def merge_patterns_shape [OF Inr])
  qed
  have isl_iff: "isl x \<longleftrightarrow> \<not> (\<exists>y. x = Inr y)" for x :: "py_error + pattern_store"
    by (cases x) simp_all
  show "isl (merge_twice S A B) \<longleftrightarrow> isl (merge_twice S B A)"
    unfolding isl_iff ok by blast
next
  show "\<forall>X Y. merge_twice S A B = Inr X \<and> merge_twice S B A = Inr Y \<longrightarrow>
        (\<forall>sheet. fillable_list X sheet = fillable_list Y sheet
               \<and> header_variants X sheet = header_variants Y sheet)"
  proof (intro allI impI)
  fix X Y sheet
  assume xy: "merge_twice S A B = Inr X \<and> merge_twice S B A = Inr Y"
  then obtain SA where SA: "merge_patterns S A = Inr SA" and X: "merge_patterns SA B = Inr X"
    by (auto simp add: merge_twice_def split: sum.splits)
  from xy obtain SB where SB: "merge_patterns S B = Inr SB" and Y: "merge_patterns SB A = Inr Y"
    by (auto simp add: merge_twice_def split: sum.splits)
  have v: "store_view X sheet = store_view Y sheet"
    by (simp add: merge_patterns_view [OF X] merge_patterns_view [OF SA]
        merge_patterns_view [OF Y] merge_patterns_view [OF SB] fold_vmerge_comm)
  have d: "sheet_of X sheet = None \<longleftrightarrow> sheet_of Y sheet = None"
    using merge_patterns_dom [OF X, of sheet] merge_patterns_dom [OF SA, of sheet]
      merge_patterns_dom [OF Y, of sheet] merge_patterns_dom [OF SB, of sheet] by blast
  show "fillable_list X sheet = fillable_list Y sheet
      \<and> header_variants X sheet = header_variants Y sheet"
    by (simp add: fields_from_view v d)
  qed
qed

subsection \<open>The example store\<close>

lemmas merge_eval = merge_patterns_def merge_twice_def merge_sheet_def update_field_def
  dict_get_def sorted_set_def Let_def or_empty_def default_sheet_def
  example_store_def example_incoming_a_def example_incoming_b_def

lemma example_merge_a: "merge_patterns example_store example_incoming_a = Inr example_merged_a"
  by (simp add: merge_eval example_merged_a_def)

lemma example_merge_a_b:
  "merge_twice example_store example_incoming_a example_incoming_b = Inr example_merged_a_b"
  by (simp add: merge_eval example_merged_a_b_def)

lemma example_merge_b_a:
  "merge_twice example_store example_incoming_b example_incoming_a = Inr example_merged_b_a"
  by (simp add: merge_eval example_merged_b_a_def)

theorem merge_idempotent_witness:
  "merge_patterns example_store example_incoming_a = Inr example_merged_a
   \<and> (\<exists>S2. merge_patterns example_merged_a example_incoming_a = Inr S2
      \<and> fillable_list S2 ''Rates'' = Some (Some [''fee'', ''rate'']))"
proof -
  have f: "fillable_list example_merged_a ''Rates'' = Some (Some [''fee'', ''rate''])"
    by (simp add: fillable_list_def sheet_of_def example_merged_a_def)
  from merge_idempotent [OF example_merge_a] obtain S2 where
    "merge_patterns example_merged_a example_incoming_a = Inr S2"
    "fillable_list S2 ''Rates'' = fillable_list example_merged_a ''Rates''" by blast
  with f example_merge_a show ?thesis by auto
qed

theorem merge_commutative_witness:
  "merge_twice example_store example_incoming_a example_incoming_b = Inr example_merged_a_b
   \<and> merge_twice example_store example_incoming_b example_incoming_a = Inr example_merged_b_a
   \<and> example_merged_a_b \<noteq> example_merged_b_a
   \<and> fillable_list example_merged_a_b ''Rates'' = fillable_list example_merged_b_a ''Rates''
   \<and> header_variants example_merged_a_b ''Rates'' = header_variants example_merged_b_a ''Rates''"
proof -
  have "example_merged_a_b \<noteq> example_merged_b_a"
    by (simp add: example_merged_a_b_def example_merged_b_a_def)
  then show ?thesis
    using merge_commutative [of example_store example_incoming_a example_incoming_b]
      example_merge_a_b example_merge_b_a
    by blast
qed

section \<open>Properties of header cleaning\<close>

subsection \<open>Characters\<close>

lemma char_eq_code: "c = d \<longleftrightarrow> code c = code d"
  by (simp add: code_def)

lemma is_underscore_code: "is_underscore c \<longleftrightarrow> code c = 95"
  by (simp add: is_underscore_def char_eq_code [of c] code_def)

lemma is_bracket_code: "is_bracket c \<longleftrightarrow> code c \<in> {40, 41, 91, 93, 123, 125}"
  by (auto simp add: is_bracket_def char_eq_code [of c] code_def)

lemma code_lower_char: "code (lower_char c) = (if is_upper c then code c + 32 else code c)"
  by (auto simp add: lower_char_def is_upper_def code_def)

lemma not_upper_lower_char: "\<not> is_upper (lower_char c)"
  unfolding is_upper_def [of "lower_char c"] code_lower_char
  by (auto simp add: is_upper_def)

lemma underscore_lower_char: "is_underscore (lower_char c) \<longleftrightarrow> is_underscore c"
  unfolding is_underscore_code code_lower_char
  by (auto simp add: is_upper_def)

lemma bracket_lower_char: "is_bracket (lower_char c) \<Longrightarrow> is_bracket c"
  unfolding is_bracket_code code_lower_char
  by (auto simp add: is_upper_def split: if_splits)

lemma space_lower_char: "is_space (lower_char c) \<Longrightarrow> is_space c"
  unfolding is_space_def [of "lower_char c"] code_lower_char
  by (auto simp add: is_upper_def is_space_def split: if_splits)

lemma lower_char_id: "\<not> is_upper c \<Longrightarrow> lower_char c = c"
  by (simp add: lower_char_def)

lemma underscore_not_space: "is_underscore c \<Longrightarrow> \<not> is_space c"
  by (simp add: is_underscore_code is_space_def)

lemma underscore_not_bracket: "is_underscore c \<Longrightarrow> \<not> is_bracket c"
  by (simp add: is_underscore_code is_bracket_code)

subsection \<open>Stages that find nothing to do\<close>

lemma remove_all_absent:
  assumes "\<not> set pat \<subseteq> set s"
  shows "remove_all pat s = s"
  using assms
proof (induction s)
  case Nil
  show ?case by simp
next
  case (Cons c cs)
  have "\<not> prefix pat (c # cs)" using Cons.prems set_mono_prefix by blast
  moreover have "\<not> set pat \<subseteq> set cs" using Cons.prems by auto
  ultimately show ?case using Cons.IH by simp
qed

lemma remove_spans_absent:
  assumes "\<not> set op \<subseteq> set s"
  shows "remove_spans op cl s = s"
  using assms
proof (induction s)
  case Nil
  show ?case by simp
next
  case (Cons c cs)
  have "\<not> prefix op (c # cs)" using Cons.prems set_mono_prefix by blast
  moreover have "\<not> set op \<subseteq> set cs" using Cons.prems by auto
  ultimately show ?case using Cons.IH by simp
qed

lemma cut_at_pipe_absent: "CHR ''|'' \<notin> set s \<Longrightarrow> cut_at_pipe s = s"
  by (induction s) auto

lemma remove_brackets_absent: "\<forall>x\<in>set s. \<not> is_bracket x \<Longrightarrow> remove_brackets s = s"
  by (simp add: remove_brackets_def)

lemma trim_absent:
  "\<forall>x\<in>set s. \<not> P x \<Longrightarrow> rev (dropWhile P (rev (dropWhile P s))) = s"
proof -
  assume a: "\<forall>x\<in>set s. \<not> P x"
  then have "dropWhile P s = s" by (cases s) simp_all
  moreover from a have "dropWhile P (rev s) = rev s" by (cases "rev s") (simp, metis dropWhile.simps(2) list.set_intros(1) set_rev)
  ultimately show ?thesis by simp
qed

lemma squeeze_absent: "\<forall>x\<in>set s. \<not> P x \<Longrightarrow> squeeze P s = s"
  by (induction P s rule: squeeze.induct) auto

lemma squeeze_no_run: "no_run is_underscore s \<Longrightarrow> squeeze is_underscore s = s"
  by (induction is_underscore s rule: squeeze.induct) (auto simp add: is_underscore_def)

lemma squeeze_hd: "\<not> P d \<Longrightarrow> squeeze P (d # cs) = d # squeeze P cs"
  by (cases cs) simp_all

lemma squeeze_Cons_cases:
  "squeeze P (c # cs) = (if P c then (case cs of [] \<Rightarrow> ''_'' | d # ds \<Rightarrow> if P d then squeeze P cs else CHR ''_'' # squeeze P cs) else c # squeeze P cs)"
  by (cases cs) simp_all

lemma no_run_squeeze: "no_run is_underscore (squeeze is_underscore s)"
proof (induction is_underscore s rule: squeeze.induct)
  case 1
  show ?case by simp
next
  case (2 c)
  show ?case by simp
next
  case (3 c d cs)
  show ?case
  proof (cases "is_underscore c")
    case True
    show ?thesis
    proof (cases "is_underscore d")
      case True
      with \<open>is_underscore c\<close> 3 show ?thesis by simp
    next
      case False
      with \<open>is_underscore c\<close> 3 show ?thesis by (simp add: squeeze_hd)
    qed
  next
    case False
    with 3 show ?thesis
      by (cases "squeeze is_underscore (d # cs)") simp_all
  qed
qed

lemma set_squeeze: "set (squeeze P s) \<subseteq> {x \<in> set s. \<not> P x} \<union> {CHR ''_''}"
  by (induction P s rule: squeeze.induct) auto

lemma no_run_append: "no_run P (a @ b) \<Longrightarrow> no_run P a \<and> no_run P b"
proof (induction P a rule: no_run.induct)
  case (1 P)
  then show ?case by simp
next
  case (2 P c)
  then show ?case by (cases b) simp_all
next
  case (3 P c d cs)
  then show ?case by simp
qed

lemma no_run_sublist: "sublist xs ys \<Longrightarrow> no_run P ys \<Longrightarrow> no_run P xs"
  unfolding sublist_def using no_run_append by blast

lemma trim_sublist: "sublist (rev (dropWhile P (rev (dropWhile P s)))) s"
proof -
  have "prefix (rev (dropWhile P (rev (dropWhile P s)))) (dropWhile P s)"
    by (metis prefixI rev_append rev_rev_ident takeWhile_dropWhile_id)
  moreover have "suffix (dropWhile P s) s" by (rule suffix_dropWhile)
  ultimately show ?thesis
    by (meson prefix_imp_sublist suffix_imp_sublist sublist_order.order_trans)
qed

lemma no_run_lower: "no_run is_underscore (lower s) = no_run is_underscore s"
  unfolding lower_def
  by (induction is_underscore s rule: no_run.induct) (simp_all add: underscore_lower_char)

lemma trimmed_trim: "trimmed P (rev (dropWhile P (rev (dropWhile P s))))"
proof -
  let ?u = "dropWhile P s"
  let ?t = "rev (dropWhile P (rev ?u))"
  show ?thesis
  proof (cases "?t = []")
    case True
    then show ?thesis by (simp add: trimmed_def)
  next
    case False
    then have ne: "dropWhile P (rev ?u) \<noteq> []" by simp
    have l: "\<not> P (last ?t)"
      using hd_dropWhile [OF ne] ne by (simp add: last_rev)
    have "prefix ?t ?u"
      by (metis prefixI rev_append rev_rev_ident takeWhile_dropWhile_id)
    with False have h: "hd ?t = hd ?u" by (metis hd_append2 prefix_def)
    have "?u \<noteq> []"
    proof
      assume "?u = []"
      then have "dropWhile P (rev ?u) = []" by (simp only: rev.simps dropWhile.simps)
      with ne show False by contradiction
    qed
    then have "\<not> P (hd ?u)" by (rule hd_dropWhile)
    with h l False show ?thesis by (simp add: trimmed_def)
  qed
qed

lemma trimmed_lower: "trimmed is_underscore s \<Longrightarrow> trimmed is_underscore (lower s)"
  by (auto simp add: trimmed_def lower_def hd_map last_map underscore_lower_char)

lemma trim_trimmed: "trimmed P s \<Longrightarrow> rev (dropWhile P (rev (dropWhile P s))) = s"
proof -
  assume t: "trimmed P s"
  show ?thesis
  proof (cases "s = []")
    case True
    then show ?thesis by simp
  next
    case False
    with t have h: "\<not> P (hd s)" "\<not> P (last s)" by (simp_all add: trimmed_def)
    from False h(1) have 1: "dropWhile P s = s" by (cases s) simp_all
    from False h(2) have 2: "dropWhile P (rev s) = rev s"
      by (cases "rev s") (simp, metis dropWhile.simps(2) hd_rev list.sel(1))
    show ?thesis by (simp add: 1 2)
  qed
qed

lemma lower_lower: "lower (lower s) = lower s"
  by (simp add: lower_def lower_char_id not_upper_lower_char)

lemma clean_header_name_normalise:
  "clean_header_name s = normalise (cut_at_pipe (strip_system_prefix (remove_template_markers s)))"
  by (simp add: clean_header_name_def normalise_def Let_def)

lemma set_trim: "set (rev (dropWhile P (rev (dropWhile P s)))) \<subseteq> set s"
  using trim_sublist [of P s] set_mono_sublist by blast

lemma normalise_chars:
  assumes "x \<in> set (normalise y)"
  shows "\<not> is_bracket x \<and> \<not> is_space x \<and> \<not> is_upper x"
proof -
  let ?a = "remove_brackets y"
  let ?b = "squeeze is_space (strip ?a)"
  let ?c = "strip_underscores (squeeze is_underscore ?b)"
  from assms obtain z where z: "z \<in> set ?c" and x: "x = lower_char z"
    by (auto simp add: normalise_def lower_def)
  have a: "\<forall>w\<in>set (strip ?a). \<not> is_bracket w"
    using set_trim [of is_space ?a] by (auto simp add: strip_def remove_brackets_def)
  have b: "\<forall>w\<in>set ?b. \<not> is_bracket w \<and> \<not> is_space w"
    using set_squeeze [of is_space "strip ?a"] a
    by (auto simp add: underscore_not_bracket underscore_not_space is_underscore_def)
  have "set ?c \<subseteq> set (squeeze is_underscore ?b)"
    unfolding strip_underscores_def by (rule set_trim)
  with z have "z \<in> set (squeeze is_underscore ?b)" by blast
  with set_squeeze [of is_underscore ?b] have "z \<in> set ?b \<or> z = CHR ''_''" by auto
  with b have "\<not> is_bracket z \<and> \<not> is_space z"
    by (auto simp add: underscore_not_bracket underscore_not_space is_underscore_def)
  then show ?thesis
    unfolding x using bracket_lower_char space_lower_char not_upper_lower_char by blast
qed

lemma normalise_no_run: "no_run is_underscore (normalise y)"
  unfolding normalise_def no_run_lower strip_underscores_def
  by (rule no_run_sublist [OF trim_sublist no_run_squeeze])

lemma normalise_trimmed: "trimmed is_underscore (normalise y)"
  unfolding normalise_def strip_underscores_def
  by (rule trimmed_lower [OF trimmed_trim])

lemma normalise_fixed:
  assumes "c = normalise y"
  shows "normalise c = c"
proof -
  have ch: "\<forall>x\<in>set c. \<not> is_bracket x \<and> \<not> is_space x \<and> \<not> is_upper x"
    using normalise_chars assms by blast
  have 1: "remove_brackets c = c" using ch by (simp add: remove_brackets_absent)
  have 2: "strip c = c" unfolding strip_def by (rule trim_absent) (use ch in blast)
  have 3: "squeeze is_space c = c" using ch by (simp add: squeeze_absent)
  have 4: "squeeze is_underscore c = c"
    using normalise_no_run [of y] assms by (simp add: squeeze_no_run)
  have "trimmed is_underscore c" using normalise_trimmed [of y] assms by simp
  then have 5: "strip_underscores c = c"
    unfolding strip_underscores_def by (rule trim_trimmed)
  have 6: "lower c = c" using ch by (simp add: lower_def lower_char_id map_idI)
  show ?thesis by (simp add: normalise_def 1 2 3 4 5 6)
qed

lemma system_prefix_absent:
  assumes "CHR ''|'' \<notin> set c" "\<forall>x\<in>set c. \<not> is_upper x" "\<not> prefix ''axis:'' c" "\<not> prefix ''bid:'' c"
  shows "strip_system_prefix c = c"
proof -
  have up: "is_upper CHR ''T''" "is_upper CHR ''A''" by (simp_all add: is_upper_def code_def)
  have "\<not> prefix p c" if "p \<in> set system_prefixes" for p
  proof -
    from that consider "p = ''axis:''" | "p = ''bid:''" | "CHR ''|'' \<in> set p" | "CHR ''T'' \<in> set p"
      | "CHR ''A'' \<in> set p"
      by (auto simp add: system_prefixes_def)
    then show ?thesis
      using assms up set_mono_prefix by cases blast+
  qed
  then have "find (\<lambda>p. prefix p c) system_prefixes = None"
    by (simp add: find_None_iff)
  then show ?thesis by (simp add: strip_system_prefix_def)
qed

text \<open>
  Claim C5, as amended.  Cleaning a cleaned header changes nothing whenever the cleaned
  header is free of markers: it has no pipe, no \<open><<\<dots>>>\<close> span, neither \<open>template.\<close> nor
  \<open>var.\<close>, and does not start with \<open>axis:\<close> or \<open>bid:\<close>.
\<close>

theorem clean_header_name_idempotent_when_marker_free:
  assumes "marker_free (clean_header_name s)"
  shows "clean_header_name (clean_header_name s) = clean_header_name s"
proof -
  define c where "c = clean_header_name s"
  have cn: "c = normalise (cut_at_pipe (strip_system_prefix (remove_template_markers s)))"
    by (simp add: c_def clean_header_name_normalise)
  have ch: "\<forall>x\<in>set c. \<not> is_bracket x \<and> \<not> is_space x \<and> \<not> is_upper x"
    using normalise_chars cn by blast
  from assms have mf: "CHR ''|'' \<notin> set c" "remove_spans ''<<'' ''>>'' c = c"
    "remove_all ''template.'' c = c" "remove_all ''var.'' c = c"
    "\<not> prefix ''axis:'' c" "\<not> prefix ''bid:'' c"
    by (simp_all add: marker_free_def c_def)
  have br: "CHR ''{'' \<notin> set c" "CHR ''('' \<notin> set c"
    using ch by (auto simp add: is_bracket_def)
  have s2: "remove_spans ''{{'' ''}}'' c = c" using br by (simp add: remove_spans_absent)
  have s3: "remove_spans ''${'' ''}'' c = c" using br by (simp add: remove_spans_absent)
  have a1: "remove_all ''axis('' c = c" using br by (simp add: remove_all_absent)
  have a2: "remove_all ''bid|'' c = c" using mf(1) by (simp add: remove_all_absent)
  have t: "remove_template_markers c = c"
    by (simp add: remove_template_markers_def mf s2 s3 a1 a2)
  have p: "strip_system_prefix c = c"
    using mf ch by (simp add: system_prefix_absent)
  have k: "cut_at_pipe c = c" using mf(1) by (rule cut_at_pipe_absent)
  have "clean_header_name c = normalise c"
    by (simp add: clean_header_name_normalise t p k)
  also have "\<dots> = c" using cn by (rule normalise_fixed)
  finally show ?thesis by (simp add: c_def)
qed

text \<open>
  Claim C5, as stated, fails: the marker \<open>var.\<close> is matched case-sensitively before the
  header is lowercased, so \<open>Var.x\<close> is cleaned to \<open>var.x\<close>, and that to \<open>x\<close>.
\<close>

theorem clean_header_name_not_idempotent:
  "clean_header_name (clean_header_name ''Var.x'') \<noteq> clean_header_name ''Var.x''"
  by code_simp

theorem clean_header_name_idempotent_when_marker_free_witness:
  "marker_free (clean_header_name ''  <<axis(lane_id)>> Lane ID (USD) | foo '')
   \<and> clean_header_name ''  <<axis(lane_id)>> Lane ID (USD) | foo '' = ''lane_id_usd''
   \<and> clean_header_name ''lane_id_usd'' = ''lane_id_usd''"
proof -
  have c: "clean_header_name ''  <<axis(lane_id)>> Lane ID (USD) | foo '' = ''lane_id_usd''"
    by code_simp
  have m: "marker_free (clean_header_name ''  <<axis(lane_id)>> Lane ID (USD) | foo '')"
    by code_simp
  from clean_header_name_idempotent_when_marker_free [OF m] m c show ?thesis by simp
qed

end
